theory Spec2Isabelle
  imports Main
begin

section \<open>Track records and the catalog client\<close>

text \<open>
  The normalised track record built by \<open>search\<close> and read by the \<open>Track\<close> component.
  The component destructures \<open>previewUrl\<close> from it; a JavaScript object that has no such
  property yields \<open>undefined\<close> there, which is \<open>None\<close> below (as is \<open>null\<close>).
  The field \<open>id\<close> of the source is \<open>trackId\<close> here, since \<open>id\<close> is the identity function
  of HOL.
\<close>

type_synonym track_id = string

record track =
  trackId :: track_id
  name :: string
  artist :: string
  album :: string
  uri :: string
  duration :: string
  previewUrl :: "string option"

text \<open>
  One item of \<open>data.tracks.items\<close> in the reply of the catalog service, with the properties
  the mapping reads: \<open>artists\<close> is the list of the artists' \<open>name\<close>s, \<open>album_name\<close> is
  \<open>album.name\<close>, and \<open>preview_url\<close> is \<open>None\<close> for \<open>null\<close>.
\<close>

record api_track =
  api_id :: track_id
  api_name :: string
  artists :: "string list"
  album_name :: string
  api_uri :: string
  duration_ms :: nat
  preview_url :: "string option"

datatype error = TypeError

subsection \<open>formatDuration\<close>

text \<open>
  JavaScript numbers are IEEE 754 doubles. The argument \<open>ms\<close> is a non-negative integer
  that is a double (\<open>is_double\<close>); it is modelled by its value, a natural number. Doubles
  have 53 significant bits, and the result of a division is the double nearest to the exact
  quotient, ties going to the even significand.
  \<^item> \<open>round_half_even n d\<close> is the integer nearest to \<open>n / d\<close>, ties to even.
  \<^item> \<open>quotient_exponent a b\<close> is the binary exponent \<open>e\<close> of \<open>a / b\<close>:
    \<open>2 ^ e \<le> a / b < 2 ^ (e + 1)\<close>.
  \<^item> \<open>floor_div a b\<close> is \<open>Math.floor (a / b)\<close>: the quotient is rounded to 53 significant
    bits, in units of \<open>2 ^ (e - 52)\<close>, and then floored. The quotients of \<open>formatDuration\<close>
    are zero or at least \<open>1 / 60000\<close> and below the largest double, so neither a subnormal
    result nor an overflow arises.
  \<^item> \<open>ms % 60000\<close> is exact on doubles: it is \<open>ms mod 60000\<close>.
\<close>

function bit_length :: "nat \<Rightarrow> nat" where
  "bit_length n = (if n = 0 then 0 else Suc (bit_length (n div 2)))"
  by pat_completeness auto
termination
  by (relation "measure (\<lambda>n. n)") auto

declare bit_length.simps [simp del]

definition round_half_even :: "nat \<Rightarrow> nat \<Rightarrow> nat" where
  "round_half_even n d =
     (let q = n div d; m = n mod d
      in if 2 * m < d then q
         else if d < 2 * m then q + 1
         else if even q then q else q + 1)"

definition quotient_exponent :: "nat \<Rightarrow> nat \<Rightarrow> int" where
  "quotient_exponent a b =
     (let e0 = int (bit_length a) - int (bit_length b)
      in if (if 0 \<le> e0 then b * 2 ^ nat e0 \<le> a else b \<le> a * 2 ^ nat (- e0))
         then e0 else e0 - 1)"

definition floor_div :: "nat \<Rightarrow> nat \<Rightarrow> nat" where
  "floor_div a b =
     (if a = 0 then 0
      else let e = quotient_exponent a b
           in if e \<le> 52
              then round_half_even (a * 2 ^ nat (52 - e)) b div 2 ^ nat (52 - e)
              else round_half_even a (b * 2 ^ nat (e - 52)) * 2 ^ nat (e - 52))"

text \<open>
  The double nearest to a natural number, and the natural numbers that are doubles.
\<close>

definition nearest_double :: "nat \<Rightarrow> nat" where
  "nearest_double c =
     (if c < 2 ^ 53 then c
      else let t = bit_length c - 53 in round_half_even c (2 ^ t) * 2 ^ t)"

definition is_double :: "nat \<Rightarrow> bool" where
  "is_double n = (nearest_double n = n)"

text \<open>
  The template literal renders a number by \<open>Number::toString\<close>. For an integer \<open>x\<close> that is
  a double it takes the decimal number with the fewest significant digits whose nearest
  double is \<open>x\<close> (at most 17 digits are needed; among those with the fewest digits the one
  nearest to \<open>x\<close>), and writes it in full when it has at most 21 digits, and in exponent
  notation otherwise. Below \<open>2 ^ 53\<close> every integer is a double, and that decimal number is
  \<open>x\<close> itself.
\<close>

definition digit_char :: "nat \<Rightarrow> char" where
  "digit_char d = char_of (48 + d)"

function show_nat :: "nat \<Rightarrow> string" where
  "show_nat n = (if n < 10 then [digit_char n] else show_nat (n div 10) @ [digit_char (n mod 10)])"
  by pat_completeness auto
termination
  by (relation "measure (\<lambda>n. n)") auto

declare show_nat.simps [simp del]

definition candidates :: "nat \<Rightarrow> nat list" where
  "candidates x =
     concat (map (\<lambda>k.
        let p = 10 ^ (length (show_nat x) - k);
            lo = (x div p) * p;
            hi = lo + p
        in if x - lo < hi - x then [lo, hi]
           else if hi - x < x - lo then [hi, lo]
           else if even (x div p) then [lo, hi] else [hi, lo]) [1..<18])"

definition shortest :: "nat \<Rightarrow> nat" where
  "shortest x = (case find (\<lambda>c. nearest_double c = x) (candidates x) of Some c \<Rightarrow> c | None \<Rightarrow> x)"

definition strip_zeros :: "string \<Rightarrow> string" where
  "strip_zeros s = rev (dropWhile (\<lambda>c. c = CHR ''0'') (rev s))"

definition number_to_string :: "nat \<Rightarrow> string" where
  "number_to_string x =
     (if x < 2 ^ 53 then show_nat x
      else let s = show_nat (shortest x)
           in if length s \<le> 21 then s
              else case strip_zeros s of
                     [] \<Rightarrow> s
                   | d # ds \<Rightarrow>
                       d # (if ds = [] then [] else CHR ''.'' # ds) @ ''e+'' @ show_nat (length s - 1))"

definition formatDuration :: "nat \<Rightarrow> string" where
  "formatDuration ms =
     (let minutes = floor_div ms 60000;
          seconds = floor_div (ms mod 60000) 1000
      in number_to_string minutes @ '':'' @ (if seconds < 10 then ''0'' else '''')
           @ number_to_string seconds)"

text \<open>Reading a duration back: the digits before and after the colon.\<close>

definition is_digit :: "char \<Rightarrow> bool" where
  "is_digit c = ((48::nat) \<le> of_char c \<and> of_char c \<le> (57::nat))"

definition read_nat :: "string \<Rightarrow> nat" where
  "read_nat s = foldl (\<lambda>acc c. 10 * acc + (of_char c - 48)) 0 s"

definition parse_duration :: "string \<Rightarrow> (nat \<times> nat) option" where
  "parse_duration s =
     (let m = takeWhile is_digit s; rest = dropWhile is_digit s
      in case rest of
           c # ss \<Rightarrow>
             if c = CHR '':'' \<and> m \<noteq> [] \<and> length ss = 2 \<and> list_all is_digit ss \<and> read_nat ss < 60
             then Some (read_nat m, read_nat ss) else None
         | [] \<Rightarrow> None)"

subsection \<open>search\<close>

text \<open>
  The object literal that both copies of \<open>search\<close> build for one item. It has no
  \<open>previewUrl\<close> property, so the field reads as \<open>undefined\<close>. \<open>track.artists[0].name\<close>
  raises a \<open>TypeError\<close> when \<open>artists\<close> is empty, since \<open>artists[0]\<close> is \<open>undefined\<close> then.
\<close>

definition toTrack :: "api_track \<Rightarrow> error + track" where
  "toTrack t =
     (case artists t of
        [] \<Rightarrow> Inl TypeError
      | a # _ \<Rightarrow>
          Inr \<lparr>trackId = api_id t, name = api_name t, artist = a, album = album_name t,
               uri = api_uri t, duration = formatDuration (duration_ms t),
               previewUrl = None\<rparr>)"

text \<open>\<open>items.map\<close>: the first item that raises ends the mapping.\<close>

fun map_items :: "api_track list \<Rightarrow> error + track list" where
  "map_items [] = Inr []"
| "map_items (t # ts) =
     (case toTrack t of
        Inl e \<Rightarrow> Inl e
      | Inr x \<Rightarrow> (case map_items ts of Inl e \<Rightarrow> Inl e | Inr xs \<Rightarrow> Inr (x # xs)))"

text \<open>
  \<open>SpotifyAuth.search\<close>: \<open>data\<close> is the reply of \<open>fetchFromSpotify\<close>, \<open>None\<close> when
  \<open>!data || !data.tracks || !data.tracks.items\<close>, otherwise the items. An error of the
  mapping rejects the promise.
\<close>

definition search :: "string \<Rightarrow> api_track list option \<Rightarrow> error + track list" where
  "search term data =
     (if term = [] then Inr []
      else case data of None \<Rightarrow> Inr [] | Some items \<Rightarrow> map_items items)"

text \<open>
  \<open>Spotify.search\<close>, the second copy: the same mapping, and a final \<open>catch\<close> that turns
  every error into the empty list.
\<close>

definition Spotify_search :: "api_track list option \<Rightarrow> track list" where
  "Spotify_search data =
     (case data of
        None \<Rightarrow> []
      | Some items \<Rightarrow> (case map_items items of Inl e \<Rightarrow> [] | Inr xs \<Rightarrow> xs))"

section \<open>Preview playback\<close>

text \<open>
  Every \<open>Track\<close> row renders its own audio element; \<open>handle\<close> names an audio element and
  \<open>row_id\<close> a mounted row. The state of the page, as far as playback goes:
  \<^item> \<open>currentlyPlaying\<close>, the ref of \<open>AudioProvider\<close> (\<open>None\<close> for \<open>null\<close>);
  \<^item> \<open>playing\<close>, which audio elements are playing (started and not paused or stopped);
  \<^item> \<open>isPlaying\<close>, the local flag of each row (\<open>useState (false)\<close>);
  \<^item> \<open>calls\<close>, the calls made on audio elements and on the coordinator, in the order
    in which they are made.
\<close>

type_synonym handle = nat
type_synonym row_id = nat

record registration =
  element :: handle
  regId :: track_id

datatype call = Play handle | Pause handle | Register handle track_id | Unregister track_id

record world =
  currentlyPlaying :: "registration option"
  playing :: "handle \<Rightarrow> bool"
  isPlaying :: "row_id \<Rightarrow> bool"
  calls :: "call list"

definition init :: world where
  "init = \<lparr>currentlyPlaying = None, playing = (\<lambda>_. False), isPlaying = (\<lambda>_. False), calls = []\<rparr>"

definition audio_play :: "handle \<Rightarrow> world \<Rightarrow> world" where
  "audio_play a w = w\<lparr>playing := (playing w)(a := True), calls := calls w @ [Play a]\<rparr>"

definition audio_pause :: "handle \<Rightarrow> world \<Rightarrow> world" where
  "audio_pause a w = w\<lparr>playing := (playing w)(a := False), calls := calls w @ [Pause a]\<rparr>"

subsection \<open>AudioProvider: register and unregister\<close>

definition register :: "handle \<Rightarrow> track_id \<Rightarrow> world \<Rightarrow> world" where
  "register audioElement i w =
     (let w1 = w\<lparr>calls := calls w @ [Register audioElement i]\<rparr>;
          w2 = (case currentlyPlaying w1 of
                  Some cur \<Rightarrow> if regId cur \<noteq> i then audio_pause (element cur) w1 else w1
                | None \<Rightarrow> w1)
      in w2\<lparr>currentlyPlaying := Some \<lparr>element = audioElement, regId = i\<rparr>\<rparr>)"

definition unregister :: "track_id \<Rightarrow> world \<Rightarrow> world" where
  "unregister i w =
     (let w1 = w\<lparr>calls := calls w @ [Unregister i]\<rparr>
      in case currentlyPlaying w1 of
           Some cur \<Rightarrow> if regId cur = i then w1\<lparr>currentlyPlaying := None\<rparr> else w1
         | None \<Rightarrow> w1)"

subsection \<open>The Track row\<close>

text \<open>
  A row: its props' \<open>track\<close> and \<open>audioRef.current\<close>, \<open>None\<close> while no audio element is
  attached to the ref. \<open>truthy\<close> is JavaScript's test of \<open>previewUrl\<close>: \<open>null\<close>,
  \<open>undefined\<close> and the empty string are falsy.
\<close>

record row =
  rowId :: row_id
  track :: track
  audioRef :: "handle option"

definition truthy :: "string option \<Rightarrow> bool" where
  "truthy v = (case v of None \<Rightarrow> False | Some s \<Rightarrow> s \<noteq> [])"

text \<open>\<open>{previewUrl && (<button ... onClick={togglePlay}>)}\<close>\<close>

definition rendersPreviewButton :: "row \<Rightarrow> bool" where
  "rendersPreviewButton r = truthy (previewUrl (track r))"

definition setIsPlaying :: "row_id \<Rightarrow> bool \<Rightarrow> world \<Rightarrow> world" where
  "setIsPlaying n b w = w\<lparr>isPlaying := (isPlaying w)(n := b)\<rparr>"

text \<open>
  \<open>togglePlay\<close> of the row that uses the context (the version of the handler that calls
  \<open>register\<close> and \<open>unregister\<close>). \<open>e.stopPropagation ()\<close> has no effect on the playback
  state and is left out. A call on \<open>audioRef.current\<close> raises a \<open>TypeError\<close> when the ref
  is \<open>null\<close>; nothing has been changed by then. \<open>isPlaying\<close> is the flag as the row last
  rendered it, which is the flag of the state when the handler starts.
\<close>

definition togglePlay :: "row \<Rightarrow> world \<Rightarrow> error + world" where
  "togglePlay r w =
     (if \<not> truthy (previewUrl (track r)) then Inr w
      else case audioRef r of
             None \<Rightarrow> Inl TypeError
           | Some a \<Rightarrow>
               Inr (setIsPlaying (rowId r) (\<not> isPlaying w (rowId r))
                     (if isPlaying w (rowId r)
                      then unregister (trackId (track r)) (audio_pause a w)
                      else register a (trackId (track r)) (audio_play a w))))"

definition handleAudioEnd :: "row \<Rightarrow> world \<Rightarrow> world" where
  "handleAudioEnd r w = setIsPlaying (rowId r) False w"

definition handleAudioError :: "row \<Rightarrow> world \<Rightarrow> world" where
  "handleAudioError r w = setIsPlaying (rowId r) False w"

text \<open>
  The function returned by the effect (the cleanup of the row): the pause is guarded
  by \<open>if (audioRef.current)\<close>, the \<open>unregister\<close> call is not guarded.
\<close>

definition cleanup :: "row \<Rightarrow> world \<Rightarrow> world" where
  "cleanup r w =
     unregister (trackId (track r))
       (case audioRef r of Some a \<Rightarrow> audio_pause a w | None \<Rightarrow> w)"

subsection \<open>Events of a page\<close>

text \<open>
  A page shows rows \<open>n\<close> with the tracks \<open>tracks n\<close>; the audio element of row \<open>n\<close> is the
  handle \<open>n\<close>, attached to the row's ref while the row is mounted (\<open>row_of\<close>). The events:
  \<^item> \<open>Toggle n\<close>: the user clicks the preview button of row \<open>n\<close>.
  \<^item> \<open>Ended n\<close>, \<open>Errored n\<close>: the audio element of row \<open>n\<close> signals the end of the media
    or a playback error, once it has stopped by itself (\<open>stopped\<close>, which is no call).
  \<^item> \<open>Unmount n\<close>: row \<open>n\<close> is destroyed. React detaches the ref of a destroyed row before
    it runs the row's effect cleanup, so the cleanup finds \<open>audioRef.current\<close> to be
    \<open>null\<close> (\<open>detached\<close>): it makes no \<open>pause\<close> call and calls \<open>unregister\<close>.
  \<^item> \<open>Rerender ns\<close>: \<open>AudioProvider\<close> renders again. It builds \<open>register\<close> and \<open>unregister\<close>
    anew on every render, and the effect of a row depends on \<open>[track.id, unregister]\<close>, so
    the cleanup of every mounted row runs, with the row's ref attached; \<open>ns\<close> are the
    mounted rows in the order in which their cleanups run.
\<close>

datatype event =
  Toggle row_id | Ended row_id | Errored row_id | Unmount row_id | Rerender "row_id list"

definition row_of :: "(row_id \<Rightarrow> track) \<Rightarrow> row_id \<Rightarrow> row" where
  "row_of tracks n = \<lparr>rowId = n, track = tracks n, audioRef = Some n\<rparr>"

definition detached :: "row \<Rightarrow> row" where
  "detached r = r\<lparr>audioRef := None\<rparr>"

definition stopped :: "handle \<Rightarrow> world \<Rightarrow> world" where
  "stopped a w = w\<lparr>playing := (playing w)(a := False)\<rparr>"

fun step :: "(row_id \<Rightarrow> track) \<Rightarrow> event \<Rightarrow> world \<Rightarrow> world" where
  "step tracks (Toggle n) w =
     (case togglePlay (row_of tracks n) w of Inr w' \<Rightarrow> w' | Inl _ \<Rightarrow> w)"
| "step tracks (Ended n) w = handleAudioEnd (row_of tracks n) (stopped n w)"
| "step tracks (Errored n) w = handleAudioError (row_of tracks n) (stopped n w)"
| "step tracks (Unmount n) w = cleanup (detached (row_of tracks n)) w"
| "step tracks (Rerender ns) w = fold (\<lambda>n. cleanup (row_of tracks n)) ns w"

fun run :: "(row_id \<Rightarrow> track) \<Rightarrow> event list \<Rightarrow> world \<Rightarrow> world" where
  "run tracks [] w = w"
| "run tracks (e # es) w = run tracks es (step tracks e w)"

text \<open>A run of \<open>register\<close> calls alone, each with its audio element and identifier.\<close>

fun registers :: "(handle \<times> track_id) list \<Rightarrow> world \<Rightarrow> world" where
  "registers [] w = w"
| "registers ((a, i) # cs) w = registers cs (register a i w)"

subsection \<open>Notions used by the properties\<close>

text \<open>\<open>precedes x y cs\<close>: somewhere in \<open>cs\<close>, \<open>x\<close> occurs and \<open>y\<close> occurs later.\<close>

fun precedes :: "'a \<Rightarrow> 'a \<Rightarrow> 'a list \<Rightarrow> bool" where
  "precedes x y [] = False"
| "precedes x y (c # cs) = ((c = x \<and> y \<in> set cs) \<or> precedes x y cs)"

subsection \<open>A page for the concrete evaluations\<close>

text \<open>
  Rows 1, 2 and 3 show the tracks \<open>1\<close> (preview \<open>a.mp3\<close>), \<open>2\<close> (no preview) and \<open>3\<close>
  (preview \<open>c.mp3\<close>) of the search results; row 4 shows track \<open>1\<close> again, as the playlist
  does once the track has been added to it. \<open>demo_item\<close> is a catalog item that has a
  preview.
\<close>

definition demo_track :: "track_id \<Rightarrow> string option \<Rightarrow> track" where
  "demo_track i p =
     \<lparr>trackId = i, name = ''Song'', artist = ''Artist'', album = ''Album'',
      uri = ''spotify:track:'' @ i, duration = ''0:30'', previewUrl = p\<rparr>"

definition demo_tracks :: "row_id \<Rightarrow> track" where
  "demo_tracks n =
     (if n = 1 then demo_track ''1'' (Some ''a.mp3'')
      else if n = 2 then demo_track ''2'' None
      else if n = 3 then demo_track ''3'' (Some ''c.mp3'')
      else if n = 4 then demo_track ''1'' (Some ''a.mp3'')
      else demo_track ''0'' None)"

definition demo_item :: api_track where
  "demo_item =
     \<lparr>api_id = ''1'', api_name = ''Song'', artists = [''Artist''], album_name = ''Album'',
      api_uri = ''spotify:track:1'', duration_ms = 30000, preview_url = Some ''a.mp3''\<rparr>"

section \<open>Properties\<close>

subsection \<open>What each operation does to the state\<close>

lemma register_fields:
  "currentlyPlaying (register a i w) = Some \<lparr>element = a, regId = i\<rparr>"
  "isPlaying (register a i w) = isPlaying w"
  "playing (register a i w) =
     (case currentlyPlaying w of
        Some cur \<Rightarrow> if regId cur \<noteq> i then (playing w)(element cur := False) else playing w
      | None \<Rightarrow> playing w)"
  "calls (register a i w) =
     calls w @ Register a i #
       (case currentlyPlaying w of
          Some cur \<Rightarrow> if regId cur \<noteq> i then [Pause (element cur)] else []
        | None \<Rightarrow> [])"
  by (simp_all add: register_def audio_pause_def Let_def split: option.splits)

lemma unregister_fields:
  "currentlyPlaying (unregister i w) =
     (case currentlyPlaying w of
        Some cur \<Rightarrow> if regId cur = i then None else Some cur
      | None \<Rightarrow> None)"
  "isPlaying (unregister i w) = isPlaying w"
  "playing (unregister i w) = playing w"
  "calls (unregister i w) = calls w @ [Unregister i]"
  by (simp_all add: unregister_def Let_def split: option.splits)

lemma audio_fields:
  "currentlyPlaying (audio_play a w) = currentlyPlaying w"
  "isPlaying (audio_play a w) = isPlaying w"
  "playing (audio_play a w) = (playing w)(a := True)"
  "calls (audio_play a w) = calls w @ [Play a]"
  "currentlyPlaying (audio_pause a w) = currentlyPlaying w"
  "isPlaying (audio_pause a w) = isPlaying w"
  "playing (audio_pause a w) = (playing w)(a := False)"
  "calls (audio_pause a w) = calls w @ [Pause a]"
  "currentlyPlaying (stopped a w) = currentlyPlaying w"
  "isPlaying (stopped a w) = isPlaying w"
  "playing (stopped a w) = (playing w)(a := False)"
  "calls (stopped a w) = calls w"
  "currentlyPlaying (setIsPlaying n b w) = currentlyPlaying w"
  "isPlaying (setIsPlaying n b w) = (isPlaying w)(n := b)"
  "playing (setIsPlaying n b w) = playing w"
  "calls (setIsPlaying n b w) = calls w"
  by (simp_all add: audio_play_def audio_pause_def stopped_def setIsPlaying_def)

lemma cleanup_fields:
  "currentlyPlaying (cleanup r w) =
     (case currentlyPlaying w of
        Some cur \<Rightarrow> if regId cur = trackId (track r) then None else Some cur
      | None \<Rightarrow> None)"
  "isPlaying (cleanup r w) = isPlaying w"
  "playing (cleanup r w) =
     (case audioRef r of Some a \<Rightarrow> (playing w)(a := False) | None \<Rightarrow> playing w)"
  "calls (cleanup r w) =
     calls w @ (case audioRef r of Some a \<Rightarrow> [Pause a] | None \<Rightarrow> [])
       @ [Unregister (trackId (track r))]"
  by (cases "audioRef r"; simp add: cleanup_def unregister_fields audio_fields)+

lemmas demo_simps = demo_tracks_def demo_track_def row_of_def detached_def togglePlay_def
  truthy_def handleAudioEnd_def handleAudioError_def cleanup_def init_def
  register_fields unregister_fields audio_fields

lemma handlers_leave_registration:
  "currentlyPlaying (handleAudioEnd r w) = currentlyPlaying w"
  "currentlyPlaying (handleAudioError r w) = currentlyPlaying w"
  "calls (handleAudioEnd r w) = calls w"
  "calls (handleAudioError r w) = calls w"
  by (simp_all add: handleAudioEnd_def handleAudioError_def audio_fields)

lemma register_leaves_flags: "isPlaying (register a i w) n = isPlaying w n"
  by (simp add: register_fields)

lemma registers_snoc: "registers (cs @ [(a, i)]) w = register a i (registers cs w)"
  by (induction cs arbitrary: w) auto

lemma precedes_append: "precedes x y cs \<Longrightarrow> precedes x y (ps @ cs)"
  by (induction ps) simp_all

lemma map_items_no_preview:
  "map_items items = Inr ts \<Longrightarrow> t \<in> set ts \<Longrightarrow> previewUrl t = None"
  by (induction items arbitrary: ts) (auto simp: toTrack_def split: sum.splits list.splits)

subsection \<open>End of playback and playback errors\<close>

text \<open>
  Claim C1: when the audio resource of the row that holds the registration signals its
  natural end or a playback error, the row's flag returns to idle and the coordinator's
  registration becomes empty. \<open>handleAudioEnd\<close> and \<open>handleAudioError\<close> reset the flag and
  never call \<open>unregister\<close> (\<open>handlers_leave_registration\<close>), unlike the pause branch of
  \<open>togglePlay\<close> and the cleanup. On the page of the example, once row 1 has been started
  and its audio has ended, or failed, the flag of row 1 is false, the audio is not playing,
  and track \<open>1\<close> is still registered.
\<close>

theorem audio_end_keeps_registration:
  "isPlaying (run demo_tracks [Toggle 1, Ended 1] init) 1 = False
   \<and> playing (run demo_tracks [Toggle 1, Ended 1] init) 1 = False
   \<and> currentlyPlaying (run demo_tracks [Toggle 1, Ended 1] init)
       = Some \<lparr>element = 1, regId = ''1''\<rparr>
   \<and> isPlaying (run demo_tracks [Toggle 1, Errored 1] init) 1 = False
   \<and> currentlyPlaying (run demo_tracks [Toggle 1, Errored 1] init)
       = Some \<lparr>element = 1, regId = ''1''\<rparr>"
  by (simp add: demo_simps)

subsection \<open>Single playback\<close>

text \<open>
  What \<open>register\<close> does in any sequence of calls: after each call, the call's element and
  identifier are the registration, and the element that was registered under a different
  identifier is not playing.
\<close>

lemma register_pauses_previous:
  "currentlyPlaying (registers (cs @ [(a, i)]) w) = Some \<lparr>element = a, regId = i\<rparr>"
  "currentlyPlaying (registers cs w) = Some cur \<Longrightarrow> regId cur \<noteq> i
     \<Longrightarrow> \<not> playing (registers (cs @ [(a, i)]) w) (element cur)"
  by (simp_all add: registers_snoc register_fields)

text \<open>
  What a render of \<open>AudioProvider\<close> does while row 1 of the example plays: the cleanup of
  every mounted row runs, so the audio of row 1 is paused and its registration released,
  and the flag of row 1 still reports playing.
\<close>

lemma rerender_runs_every_cleanup:
  "calls (run demo_tracks [Toggle 1, Rerender [1, 2, 3, 4]] init)
     = [Play 1, Register 1 ''1'', Pause 1, Unregister ''1'', Pause 2, Unregister ''2'',
        Pause 3, Unregister ''3'', Pause 4, Unregister ''1'']
   \<and> \<not> playing (run demo_tracks [Toggle 1, Rerender [1, 2, 3, 4]] init) 1
   \<and> currentlyPlaying (run demo_tracks [Toggle 1, Rerender [1, 2, 3, 4]] init) = None
   \<and> isPlaying (run demo_tracks [Toggle 1, Rerender [1, 2, 3, 4]] init) 1"
  by (simp add: demo_simps)


subsection \<open>Guarded release\<close>

text \<open>
  Claim C3. \<open>unregister i\<close> clears the registration if and only if the registered
  identifier is \<open>i\<close>, and changes neither an audio element nor a flag. So a release of \<open>i\<close>
  after a \<open>register\<close> of another identifier \<open>j\<close> leaves the registration of \<open>j\<close> in place,
  and a release while nothing is registered changes nothing but the record of the call.
  \<open>unregister\<close> has no error result.
\<close>

theorem unregister_guarded:
  "currentlyPlaying (unregister i w) =
     (if \<exists>cur. currentlyPlaying w = Some cur \<and> regId cur = i then None else currentlyPlaying w)
   \<and> playing (unregister i w) = playing w
   \<and> isPlaying (unregister i w) = isPlaying w
   \<and> (i \<noteq> j \<longrightarrow>
        currentlyPlaying (unregister i (register a j w)) = Some \<lparr>element = a, regId = j\<rparr>)
   \<and> (currentlyPlaying w = None \<longrightarrow> unregister i w = w\<lparr>calls := calls w @ [Unregister i]\<rparr>)"
proof (intro conjI impI)
  show "currentlyPlaying (unregister i w) =
     (if \<exists>cur. currentlyPlaying w = Some cur \<and> regId cur = i then None else currentlyPlaying w)"
    by (auto simp: unregister_fields split: option.splits)
  show "playing (unregister i w) = playing w" and "isPlaying (unregister i w) = isPlaying w"
    by (simp_all add: unregister_fields)
next
  assume "i \<noteq> j"
  then show "currentlyPlaying (unregister i (register a j w)) = Some \<lparr>element = a, regId = j\<rparr>"
    by (simp add: unregister_fields register_fields)
next
  assume "currentlyPlaying w = None"
  then show "unregister i w = w\<lparr>calls := calls w @ [Unregister i]\<rparr>"
    by (simp add: unregister_def Let_def)
qed

theorem unregister_guarded_witness:
  "currentlyPlaying (unregister ''A'' (register 7 ''B'' init)) = Some \<lparr>element = 7, regId = ''B''\<rparr>
   \<and> currentlyPlaying (unregister ''B'' (register 7 ''B'' init)) = None
   \<and> unregister ''A'' init = init\<lparr>calls := calls init @ [Unregister ''A'']\<rparr>"
proof -
  have ne: "''A'' \<noteq> ''B''" by simp
  have none: "currentlyPlaying init = None" by (simp add: init_def)
  have reg: "currentlyPlaying (register 7 ''B'' init) = Some \<lparr>element = 7, regId = ''B''\<rparr>"
    by (simp add: register_fields)
  note t1 = unregister_guarded [of "''A''" init "''B''" 7]
  note t2 = unregister_guarded [of "''B''" "register 7 ''B'' init" "''B''" 7]
  from t1 ne
  have "currentlyPlaying (unregister ''A'' (register 7 ''B'' init))
      = Some \<lparr>element = 7, regId = ''B''\<rparr>"
    by blast
  moreover from t2 reg have "currentlyPlaying (unregister ''B'' (register 7 ''B'' init)) = None"
    by simp
  moreover from t1 none
  have "unregister ''A'' init = init\<lparr>calls := calls init @ [Unregister ''A'']\<rparr>"
    by blast
  ultimately show ?thesis by blast
qed

subsection \<open>A pause from outside\<close>

text \<open>
  Claim C4: when another row's \<open>register\<close> pauses a row's audio element, that row's flag
  goes back to idle. The audio element has handlers for \<open>ended\<close> and \<open>error\<close> only, and
  \<open>register\<close> changes no flag (\<open>register_leaves_flags\<close>). On the page of the example, after
  row 1 and then row 3 have been toggled, the audio of row 1 has been paused by \<open>register\<close>
  and the flag of row 1 still reports playing.
\<close>

theorem external_pause_keeps_flag:
  "playing (run demo_tracks [Toggle 1, Toggle 3] init) 1 = False
   \<and> isPlaying (run demo_tracks [Toggle 1, Toggle 3] init) 1 = True
   \<and> playing (run demo_tracks [Toggle 1, Toggle 3] init) 3 = True
   \<and> currentlyPlaying (run demo_tracks [Toggle 1, Toggle 3] init)
       = Some \<lparr>element = 3, regId = ''3''\<rparr>
   \<and> calls (run demo_tracks [Toggle 1, Toggle 3] init)
       = [Play 1, Register 1 ''1'', Play 3, Register 3 ''3'', Pause 1]"
  by (simp add: demo_simps)

subsection \<open>The order of the calls of a toggle\<close>

text \<open>
  Claim C5, as stated, fails: toggling the idle row 1 of the example calls \<open>play\<close> on the
  row's audio element first and \<open>register\<close> second, so \<open>register\<close> does not precede \<open>play\<close>.
\<close>

theorem toggle_register_not_first:
  "calls (step demo_tracks (Toggle 1) init) = [Play 1, Register 1 ''1'']
   \<and> \<not> precedes (Register 1 ''1'') (Play 1) (calls (step demo_tracks (Toggle 1) init))"
  by (simp add: demo_simps)

text \<open>
  Claim C5, amended. When the user toggles an idle row that has a preview URL, the handler
  first starts the row's own audio element and then calls \<open>register\<close> with that element and
  the track's identifier (which pauses the element registered under another identifier, if
  any); the row's flag becomes playing and the row's element and identifier are registered.
\<close>

theorem toggle_play_then_register:
  assumes "truthy (previewUrl (track r))" and "audioRef r = Some a" and "\<not> isPlaying w (rowId r)"
  shows "\<exists>w'. togglePlay r w = Inr w'
    \<and> calls w' = calls w @ Play a # Register a (trackId (track r)) #
        (case currentlyPlaying w of
           Some cur \<Rightarrow> if regId cur \<noteq> trackId (track r) then [Pause (element cur)] else []
         | None \<Rightarrow> [])
    \<and> precedes (Play a) (Register a (trackId (track r))) (calls w')
    \<and> isPlaying w' (rowId r)
    \<and> currentlyPlaying w' = Some \<lparr>element = a, regId = trackId (track r)\<rparr>"
proof -
  let ?w' = "setIsPlaying (rowId r) True (register a (trackId (track r)) (audio_play a w))"
  let ?tail = "Play a # Register a (trackId (track r)) #
        (case currentlyPlaying w of
           Some cur \<Rightarrow> if regId cur \<noteq> trackId (track r) then [Pause (element cur)] else []
         | None \<Rightarrow> [])"
  from assms have t: "togglePlay r w = Inr ?w'" by (simp add: togglePlay_def)
  have c: "calls ?w' = calls w @ ?tail" by (simp add: register_fields audio_fields)
  have "precedes (Play a) (Register a (trackId (track r))) ?tail" by simp
  then have p: "precedes (Play a) (Register a (trackId (track r))) (calls ?w')"
    unfolding c by (rule precedes_append)
  have "isPlaying ?w' (rowId r)"
    and "currentlyPlaying ?w' = Some \<lparr>element = a, regId = trackId (track r)\<rparr>"
    by (simp_all add: register_fields audio_fields)
  with t c p show ?thesis by blast
qed

theorem toggle_play_then_register_witness:
  "\<exists>w'. togglePlay (row_of demo_tracks 3) (step demo_tracks (Toggle 1) init) = Inr w'
    \<and> calls w' = [Play 1, Register 1 ''1'', Play 3, Register 3 ''3'', Pause 1]
    \<and> precedes (Play 3) (Register 3 ''3'') (calls w')"
proof -
  let ?r = "row_of demo_tracks 3" and ?w = "step demo_tracks (Toggle 1) init"
  have h: "truthy (previewUrl (track ?r))" "audioRef ?r = Some 3" "\<not> isPlaying ?w (rowId ?r)"
    by (simp_all add: demo_simps)
  have e: "calls ?w = [Play 1, Register 1 ''1'']"
    "currentlyPlaying ?w = Some \<lparr>element = 1, regId = ''1''\<rparr>" "trackId (track ?r) = ''3''"
    by (simp_all add: demo_simps)
  from toggle_play_then_register [OF h] obtain w' where
    "togglePlay ?r ?w = Inr w'"
    "calls w' = calls ?w @ Play 3 # Register 3 (trackId (track ?r)) #
        (case currentlyPlaying ?w of
           Some cur \<Rightarrow> if regId cur \<noteq> trackId (track ?r) then [Pause (element cur)] else []
         | None \<Rightarrow> [])"
    "precedes (Play 3) (Register 3 (trackId (track ?r))) (calls w')"
    by blast
  then have "togglePlay ?r ?w = Inr w'
    \<and> calls w' = [Play 1, Register 1 ''1'', Play 3, Register 3 ''3'', Pause 1]
    \<and> precedes (Play 3) (Register 3 ''3'') (calls w')"
    unfolding e by simp
  then show ?thesis by blast
qed

subsection \<open>The records of a search\<close>

text \<open>
  Claim C6: every record returned by the search carries the fields of a track record, the
  preview URL among them, present exactly when the catalog entry has a preview. Both copies
  of \<open>search\<close> build the record from \<open>id\<close>, \<open>name\<close>, \<open>artists[0].name\<close>, \<open>album.name\<close>,
  \<open>uri\<close> and the formatted \<open>duration_ms\<close>, and never read \<open>preview_url\<close>
  (\<open>map_items_no_preview\<close>): for a catalog item whose preview is \<open>a.mp3\<close> the record has no
  preview URL.
\<close>

theorem search_drops_preview:
  "search ''song'' (Some [demo_item]) =
     Inr [\<lparr>trackId = ''1'', name = ''Song'', artist = ''Artist'', album = ''Album'',
           uri = ''spotify:track:1'', duration = formatDuration 30000, previewUrl = None\<rparr>]
   \<and> Spotify_search (Some [demo_item]) =
     [\<lparr>trackId = ''1'', name = ''Song'', artist = ''Artist'', album = ''Album'',
           uri = ''spotify:track:1'', duration = formatDuration 30000, previewUrl = None\<rparr>]
   \<and> preview_url demo_item = Some ''a.mp3''"
  by (simp add: search_def Spotify_search_def toTrack_def demo_item_def)

subsection \<open>Registering the registered identifier again\<close>

text \<open>
  Claim C7. When the identifier passed to \<open>register\<close> is the registered one, \<open>register\<close>
  pauses nothing: the only call recorded is the \<open>register\<close> call itself, no audio element
  and no flag changes, and the registration is the element and identifier passed (the
  registration as it was, when the element is the registered one). A second such call
  changes nothing but the record of the calls.
\<close>

theorem register_same_id_no_pause:
  assumes "currentlyPlaying w = Some cur" and "regId cur = i"
  shows "calls (register a i w) = calls w @ [Register a i]
    \<and> playing (register a i w) = playing w
    \<and> isPlaying (register a i w) = isPlaying w
    \<and> currentlyPlaying (register a i w) = Some \<lparr>element = a, regId = i\<rparr>
    \<and> (element cur = a \<longrightarrow> currentlyPlaying (register a i w) = currentlyPlaying w)
    \<and> register a i (register a i w)
        = (register a i w)\<lparr>calls := calls w @ [Register a i, Register a i]\<rparr>"
proof -
  from assms have once: "register a i w
      = w\<lparr>calls := calls w @ [Register a i],
           currentlyPlaying := Some \<lparr>element = a, regId = i\<rparr>\<rparr>"
    by (simp add: register_def Let_def)
  have twice: "register a i (register a i w)
      = (register a i w)\<lparr>calls := calls w @ [Register a i, Register a i]\<rparr>"
    unfolding once by (simp add: register_def Let_def)
  from assms have "element cur = a \<longrightarrow> currentlyPlaying (register a i w) = currentlyPlaying w"
    unfolding once by auto
  with once twice show ?thesis by simp
qed

theorem register_same_id_no_pause_witness:
  "calls (register 1 ''1'' (audio_play 1 (register 1 ''1'' (audio_play 1 init))))
     = [Play 1, Register 1 ''1'', Play 1, Register 1 ''1'']
   \<and> playing (register 1 ''1'' (audio_play 1 (register 1 ''1'' (audio_play 1 init)))) 1"
proof -
  let ?w = "audio_play 1 (register 1 ''1'' (audio_play 1 init))"
  have cur: "currentlyPlaying ?w = Some \<lparr>element = 1, regId = ''1''\<rparr>"
    by (simp add: register_fields audio_fields)
  have "regId \<lparr>element = 1, regId = ''1''\<rparr> = ''1''" by simp
  note t = register_same_id_no_pause [OF cur this, of 1]
  have c: "calls ?w = [Play 1, Register 1 ''1'', Play 1]"
    by (simp add: register_fields audio_fields init_def)
  have p: "playing ?w 1" by (simp add: audio_fields)
  from t c p show ?thesis by simp
qed

subsection \<open>Tracks without a preview\<close>

lemma cleanup_no_preview:
  assumes "\<forall>i. Register n i \<notin> set (calls w)"
    and "\<forall>cur. currentlyPlaying w = Some cur \<longrightarrow> element cur \<noteq> n"
  shows "(\<forall>i. Register n i \<notin> set (calls (cleanup r w)))
    \<and> (\<forall>cur. currentlyPlaying (cleanup r w) = Some cur \<longrightarrow> element cur \<noteq> n)"
  using assms by (auto simp: cleanup_fields split: option.splits if_splits)

lemma cleanups_no_preview:
  "(\<forall>i. Register n i \<notin> set (calls w)) \<Longrightarrow>
   (\<forall>cur. currentlyPlaying w = Some cur \<longrightarrow> element cur \<noteq> n) \<Longrightarrow>
   (\<forall>i. Register n i \<notin> set (calls (fold (\<lambda>m. cleanup (row_of tracks m)) ms w)))
    \<and> (\<forall>cur. currentlyPlaying (fold (\<lambda>m. cleanup (row_of tracks m)) ms w) = Some cur
           \<longrightarrow> element cur \<noteq> n)"
proof (induction ms arbitrary: w)
  case Nil
  then show ?case by simp
next
  case (Cons m ms)
  from cleanup_no_preview [OF Cons.prems, of "row_of tracks m"]
  have "\<forall>i. Register n i \<notin> set (calls (cleanup (row_of tracks m) w))"
    and "\<forall>cur. currentlyPlaying (cleanup (row_of tracks m) w) = Some cur \<longrightarrow> element cur \<noteq> n"
    by blast+
  from Cons.IH [OF this] show ?case by simp
qed

lemma step_no_preview:
  assumes "previewUrl (tracks n) = None"
    and "\<forall>i. Register n i \<notin> set (calls w)"
    and "\<forall>cur. currentlyPlaying w = Some cur \<longrightarrow> element cur \<noteq> n"
  shows "(\<forall>i. Register n i \<notin> set (calls (step tracks e w)))
    \<and> (\<forall>cur. currentlyPlaying (step tracks e w) = Some cur \<longrightarrow> element cur \<noteq> n)"
proof (cases e)
  case (Toggle m)
  show ?thesis
  proof (cases "m = n")
    case True
    with assms Toggle show ?thesis by (simp add: togglePlay_def row_of_def truthy_def)
  next
    case False
    with assms Toggle show ?thesis
      by (auto simp: togglePlay_def row_of_def register_fields unregister_fields audio_fields
          split: option.splits if_splits)
  qed
next
  case (Ended m)
  with assms show ?thesis by (simp add: handleAudioEnd_def audio_fields)
next
  case (Errored m)
  with assms show ?thesis by (simp add: handleAudioError_def audio_fields)
next
  case (Unmount m)
  from cleanup_no_preview [OF assms(2,3), of "detached (row_of tracks m)"] Unmount
  show ?thesis by simp
next
  case (Rerender ms)
  from cleanups_no_preview [OF assms(2,3), of tracks ms] Rerender
  show ?thesis by simp
qed

lemma run_no_preview:
  assumes "previewUrl (tracks n) = None"
  shows "(\<forall>i. Register n i \<notin> set (calls w)) \<Longrightarrow>
     (\<forall>cur. currentlyPlaying w = Some cur \<longrightarrow> element cur \<noteq> n) \<Longrightarrow>
     (\<forall>i. Register n i \<notin> set (calls (run tracks es w)))
      \<and> (\<forall>cur. currentlyPlaying (run tracks es w) = Some cur \<longrightarrow> element cur \<noteq> n)"
proof (induction es arbitrary: w)
  case Nil
  then show ?case by simp
next
  case (Cons e es)
  from step_no_preview [where tracks = tracks and n = n and w = w and e = e, OF assms Cons.prems]
  have "\<forall>i. Register n i \<notin> set (calls (step tracks e w))"
    and "\<forall>cur. currentlyPlaying (step tracks e w) = Some cur \<longrightarrow> element cur \<noteq> n"
    by blast+
  from Cons.IH [OF this] show ?case by simp
qed

text \<open>
  Claim C8. A row whose track has no preview URL (\<open>null\<close> or \<open>undefined\<close>) renders no
  preview button, and its \<open>togglePlay\<close> returns at once and changes nothing. On any page
  and after any sequence of events, \<open>register\<close> has never been called with the audio element
  of such a row, and the registration is never that element.
\<close>

theorem no_preview_no_registration:
  "(previewUrl (track r) = None \<longrightarrow> \<not> rendersPreviewButton r \<and> togglePlay r w = Inr w)
   \<and> (previewUrl (tracks n) = None \<longrightarrow>
        Register n i \<notin> set (calls (run tracks es init))
        \<and> (\<forall>cur. currentlyPlaying (run tracks es init) = Some cur \<longrightarrow> element cur \<noteq> n))"
proof -
  have "previewUrl (track r) = None \<longrightarrow> \<not> rendersPreviewButton r \<and> togglePlay r w = Inr w"
    by (simp add: rendersPreviewButton_def togglePlay_def truthy_def)
  moreover have "previewUrl (tracks n) = None \<longrightarrow>
        Register n i \<notin> set (calls (run tracks es init))
        \<and> (\<forall>cur. currentlyPlaying (run tracks es init) = Some cur \<longrightarrow> element cur \<noteq> n)"
  proof
    assume np: "previewUrl (tracks n) = None"
    have "\<forall>i. Register n i \<notin> set (calls init)"
      and "\<forall>cur. currentlyPlaying init = Some cur \<longrightarrow> element cur \<noteq> n"
      by (simp_all add: init_def)
    from run_no_preview [where tracks = tracks and n = n and w = init and es = es, OF np this]
    show "Register n i \<notin> set (calls (run tracks es init))
        \<and> (\<forall>cur. currentlyPlaying (run tracks es init) = Some cur \<longrightarrow> element cur \<noteq> n)"
      by blast
  qed
  ultimately show ?thesis by (rule conjI)
qed

theorem no_preview_no_registration_witness:
  "\<not> rendersPreviewButton (row_of demo_tracks 2)
   \<and> togglePlay (row_of demo_tracks 2) init = Inr init
   \<and> Register 2 ''2'' \<notin> set (calls (run demo_tracks [Toggle 2, Toggle 3, Toggle 2, Unmount 2] init))
   \<and> currentlyPlaying (run demo_tracks [Toggle 2, Toggle 3, Toggle 2, Unmount 2] init)
       = Some \<lparr>element = 3, regId = ''3''\<rparr>"
proof -
  have np: "previewUrl (track (row_of demo_tracks 2)) = None" "previewUrl (demo_tracks 2) = None"
    by (simp_all add: demo_simps)
  note t = no_preview_no_registration [of "row_of demo_tracks 2" init demo_tracks 2 "''2''"
      "[Toggle 2, Toggle 3, Toggle 2, Unmount 2]"]
  from t np have "\<not> rendersPreviewButton (row_of demo_tracks 2)"
    and "togglePlay (row_of demo_tracks 2) init = Inr init"
    and "Register 2 ''2''
      \<notin> set (calls (run demo_tracks [Toggle 2, Toggle 3, Toggle 2, Unmount 2] init))"
    by blast+
  moreover
  have "currentlyPlaying (run demo_tracks [Toggle 2, Toggle 3, Toggle 2, Unmount 2] init)
       = Some \<lparr>element = 3, regId = ''3''\<rparr>"
    by (simp add: demo_simps)
  ultimately show ?thesis by blast
qed

subsection \<open>Destroying a row\<close>




subsection \<open>Division on doubles\<close>

lemma bit_length_0: "bit_length 0 = 0"
  by (simp add: bit_length.simps [of 0])

lemma bit_length_pos: "n \<noteq> 0 \<Longrightarrow> bit_length n = Suc (bit_length (n div 2))"
  by (simp add: bit_length.simps [of n])

lemma bit_length_Suc0: "bit_length (Suc 0) = Suc 0"
  by (simp add: bit_length_pos [of "Suc 0"] bit_length_0)

lemma bit_length_numeral_step:
  "bit_length (numeral (Num.Bit0 n)) = Suc (bit_length (numeral n))"
  "bit_length (numeral (Num.Bit1 n)) = Suc (bit_length (numeral n))"
  "bit_length (numeral Num.One) = 1"
  by (simp_all add: bit_length_pos [of "numeral (Num.Bit0 n)"]
      bit_length_pos [of "numeral (Num.Bit1 n)"] bit_length_Suc0
      numeral_Bit0_div_2 numeral_Bit1_div_2)

lemmas bit_length_eval = bit_length_numeral_step bit_length_Suc0 bit_length_0

lemma bit_length_le: "n < 2 ^ k \<Longrightarrow> bit_length n \<le> k"
proof (induction k arbitrary: n)
  case 0
  then show ?case by (simp add: bit_length_0)
next
  case (Suc k)
  show ?case
  proof (cases "n = 0")
    case True
    then show ?thesis by (simp add: bit_length_0)
  next
    case False
    from Suc.prems have "n div 2 < 2 ^ k" by simp
    then have "bit_length (n div 2) \<le> k" by (rule Suc.IH)
    with False show ?thesis by (simp add: bit_length_pos)
  qed
qed

lemma bit_length_ge: "2 ^ k \<le> n \<Longrightarrow> Suc k \<le> bit_length n"
proof (induction k arbitrary: n)
  case 0
  then have "n \<noteq> 0" by simp
  then show ?case by (simp add: bit_length_pos)
next
  case (Suc k)
  have "0 < (2::nat) ^ Suc k" by simp
  with Suc.prems have "n \<noteq> 0" by linarith
  from Suc.prems have "2 ^ k \<le> n div 2" by simp
  then have "Suc k \<le> bit_length (n div 2)" by (rule Suc.IH)
  with \<open>n \<noteq> 0\<close> show ?case by (simp add: bit_length_pos)
qed

lemma bit_length_eqI: "0 < k \<Longrightarrow> 2 ^ (k - 1) \<le> n \<Longrightarrow> n < 2 ^ k \<Longrightarrow> bit_length n = k"
  using bit_length_le [of n k] bit_length_ge [of "k - 1" n] by simp

lemma round_half_even_range:
  "0 < d \<Longrightarrow> round_half_even n d = n div d
     \<or> (round_half_even n d = n div d + 1 \<and> d \<le> 2 * (n mod d))"
  by (auto simp: round_half_even_def Let_def)

lemma div_add_small: "x < P \<Longrightarrow> (q * P + x) div P = (q::nat)"
  by simp

text \<open>Rounding in units finer than half of 1/b keeps the floor of a quotient by b.\<close>

lemma floor_of_rounded:
  assumes b: "0 < b" and fine: "b < 2 * P" and P: "0 < P"
  shows "round_half_even (a * P) b div P = a div b"
proof -
  let ?q = "a div b" and ?m = "a mod b"
  let ?d1 = "(?m * P) div b" and ?d2 = "(?m * P) mod b"
  have a: "a = ?q * b + ?m" by simp
  have N: "a * P = (?q * P) * b + ?m * P"
    by (metis a add_mult_distrib mult.assoc mult.commute)
  have ndiv: "(a * P) div b = ?q * P + ?d1"
    unfolding N using b by simp
  have nmod: "(a * P) mod b = ?d2"
    unfolding N using b by simp
  have m: "?m < b" using b by simp
  then have "?m * P < b * P" using P by simp
  then have d1: "?d1 < P" using b by (simp add: less_mult_imp_div_less mult.commute)
  from round_half_even_range [OF b, of "a * P"]
  show ?thesis
  proof
    assume "round_half_even (a * P) b = a * P div b"
    with ndiv d1 show ?thesis by simp
  next
    assume up: "round_half_even (a * P) b = a * P div b + 1 \<and> b \<le> 2 * (a * P mod b)"
    have "?d1 + 1 < P"
    proof (rule ccontr)
      assume "\<not> ?d1 + 1 < P"
      with d1 have top: "?d1 + 1 = P" by simp
      have split: "?m * P = ?d1 * b + ?d2" by simp
      from m have "?m + 1 \<le> b" by simp
      then have "(?m + 1) * P \<le> b * P" by (rule mult_le_mono1)
      then have le: "?m * P + P \<le> b * P" by (simp add: add_mult_distrib)
      have bp: "b * P = ?d1 * b + b" using top
        by (metis add_mult_distrib mult.commute mult_1)
      from up nmod have "b \<le> 2 * ?d2" by simp
      with split le bp have "2 * P \<le> b" by linarith
      with fine show False by simp
    qed
    then have "(?q * P + (?d1 + 1)) div P = ?q" by (rule div_add_small)
    moreover from up ndiv have "round_half_even (a * P) b = ?q * P + (?d1 + 1)" by simp
    ultimately show ?thesis by (simp only:)
  qed
qed

lemma quotient_exponent_le:
  "quotient_exponent a b \<le> int (bit_length a) - int (bit_length b)"
  by (simp add: quotient_exponent_def Let_def)

lemma floor_div_exact:
  assumes b: "0 < b" and fine: "b < 2 * 2 ^ (52 + bit_length b - bit_length a)"
    and small: "bit_length a \<le> 52 + bit_length b"
  shows "floor_div a b = a div b"
proof (cases "a = 0")
  case True
  then show ?thesis by (simp add: floor_div_def)
next
  case False
  let ?e = "quotient_exponent a b"
  let ?s = "nat (52 - ?e)"
  from quotient_exponent_le [of a b] small have e: "?e \<le> 52" by simp
  from quotient_exponent_le [of a b] small
  have "52 + bit_length b - bit_length a \<le> ?s" by simp
  then have pw: "(2::nat) ^ (52 + bit_length b - bit_length a) \<le> 2 ^ ?s"
    by (rule power_increasing) simp
  have "b < 2 * 2 ^ ?s"
    by (rule less_le_trans [OF fine mult_le_mono2 [OF pw]])
  from floor_of_rounded [OF b this] have "round_half_even (a * 2 ^ ?s) b div 2 ^ ?s = a div b"
    by simp
  with False e show ?thesis by (simp add: floor_div_def Let_def)
qed

lemma bit_length_60000: "bit_length 60000 = 16"
  by (rule bit_length_eqI) simp_all

lemma bit_length_1000: "bit_length 1000 = 10"
  by (rule bit_length_eqI) simp_all

lemma floor_div_minutes: "ms < 2 ^ 53 \<Longrightarrow> floor_div ms 60000 = ms div 60000"
proof -
  assume "ms < 2 ^ 53"
  then have l: "bit_length ms \<le> 53" by (rule bit_length_le)
  then have "15 \<le> 68 - bit_length ms" by simp
  then have "(2::nat) ^ 15 \<le> 2 ^ (68 - bit_length ms)" by (rule power_increasing) simp
  then have "(32768::nat) \<le> 2 ^ (68 - bit_length ms)" by simp
  then have "(60000::nat) < 2 * 2 ^ (68 - bit_length ms)" by linarith
  with l show ?thesis by (intro floor_div_exact) (simp_all add: bit_length_60000)
qed

lemma floor_div_seconds: "r < 60000 \<Longrightarrow> floor_div r 1000 = r div 1000"
proof -
  assume "r < 60000"
  then have "r < 2 ^ 16" by simp
  then have l: "bit_length r \<le> 16" by (rule bit_length_le)
  then have "46 \<le> 62 - bit_length r" by simp
  then have "(2::nat) ^ 46 \<le> 2 ^ (62 - bit_length r)" by (rule power_increasing) simp
  then have "(70368744177664::nat) \<le> 2 ^ (62 - bit_length r)" by simp
  then have "(1000::nat) < 2 * 2 ^ (62 - bit_length r)" by linarith
  with l show ?thesis by (intro floor_div_exact) (simp_all add: bit_length_1000)
qed

subsection \<open>Digits\<close>

lemma is_digit_digit_char: "d < 10 \<Longrightarrow> is_digit (digit_char d)"
  by (simp add: is_digit_def digit_char_def)

lemma of_char_digit_char: "d < 10 \<Longrightarrow> of_char (digit_char d) = 48 + d"
  by (simp add: digit_char_def)

lemma show_nat_digits: "list_all is_digit (show_nat n)"
proof (induction n rule: show_nat.induct)
  case (1 n)
  show ?case
  proof (cases "n < 10")
    case True
    then show ?thesis by (simp add: show_nat.simps [of n] is_digit_digit_char)
  next
    case False
    with "1" show ?thesis by (simp add: show_nat.simps [of n] is_digit_digit_char)
  qed
qed

lemma show_nat_nonempty: "show_nat n \<noteq> []"
  by (simp add: show_nat.simps [of n])

lemma read_nat_snoc: "read_nat (s @ [c]) = 10 * read_nat s + (of_char c - 48)"
  by (simp add: read_nat_def)

lemma read_show_nat: "read_nat (show_nat n) = n"
proof (induction n rule: show_nat.induct)
  case (1 n)
  show ?case
  proof (cases "n < 10")
    case True
    then show ?thesis
      by (simp add: show_nat.simps [of n] read_nat_def of_char_digit_char)
  next
    case False
    with "1" have "read_nat (show_nat (n div 10)) = n div 10" by simp
    with False show ?thesis
      by (simp add: show_nat.simps [of n] read_nat_snoc of_char_digit_char)
  qed
qed

lemma is_digit_colon: "\<not> is_digit CHR '':''"
  by (simp add: is_digit_def)

lemma takeWhile_digits:
  "list_all is_digit ds \<Longrightarrow> takeWhile is_digit (ds @ CHR '':'' # r) = ds"
  by (induction ds) (simp_all add: is_digit_colon)

lemma dropWhile_digits:
  "list_all is_digit ds \<Longrightarrow> dropWhile is_digit (ds @ CHR '':'' # r) = CHR '':'' # r"
  by (induction ds) (simp_all add: is_digit_colon)

lemma show_nat_small: "n < 10 \<Longrightarrow> show_nat n = [digit_char n]"
  by (simp add: show_nat.simps [of n])

lemma show_nat_two:
  "10 \<le> n \<Longrightarrow> n < 100 \<Longrightarrow> show_nat n = [digit_char (n div 10), digit_char (n mod 10)]"
  by (simp add: show_nat.simps [of n] show_nat_small)

lemma seconds_lt_60: "(ms mod 60000) div 1000 < (60::nat)"
proof -
  have "ms mod 60000 < 60000" by simp
  then show ?thesis by (simp add: less_mult_imp_div_less)
qed

lemma seconds_field_shape:
  assumes "s < 60"
  shows "length ((if s < 10 then ''0'' else '''') @ show_nat s) = 2
    \<and> list_all is_digit ((if s < 10 then ''0'' else '''') @ show_nat s)
    \<and> read_nat ((if s < 10 then ''0'' else '''') @ show_nat s) = s"
proof (cases "s < 10")
  case True
  then show ?thesis
    by (simp add: show_nat_small is_digit_digit_char read_nat_def of_char_digit_char is_digit_def)
next
  case False
  with assms have "show_nat s = [digit_char (s div 10), digit_char (s mod 10)]"
    by (simp add: show_nat_two)
  then have "length (show_nat s) = 2" by simp
  with False show ?thesis
    by (simp add: show_nat_digits read_show_nat)
qed

lemma digit_chars:
  "digit_char 0 = CHR ''0''" "digit_char 1 = CHR ''1''" "digit_char 2 = CHR ''2''"
  "digit_char 3 = CHR ''3''" "digit_char 4 = CHR ''4''" "digit_char 5 = CHR ''5''"
  "digit_char 6 = CHR ''6''" "digit_char 7 = CHR ''7''" "digit_char 8 = CHR ''8''"
  "digit_char 9 = CHR ''9''"
  by code_simp+

lemma digit_char_Suc0: "digit_char (Suc 0) = CHR ''1''"
  using digit_chars(2) by simp

lemmas number_to_string_eval = number_to_string_def shortest_def candidates_def
  nearest_double_def bit_length_eval round_half_even_def Let_def show_nat.simps digit_chars
  digit_char_Suc0 strip_zeros_def upt_rec

text \<open>
  Two renderings of doubles that are not below \<open>2 ^ 53\<close>: \<open>2 ^ 60\<close> is written with its 16
  shortest digits and zeros, and a number with 22 digits in exponent notation.
\<close>

lemma number_to_string_large:
  "number_to_string (2 ^ 60) = ''1152921504606847000''"
  "number_to_string 1289520874255604514816 = ''1.2895208742556045e+21''"
  by (simp_all add: number_to_string_eval)

subsection \<open>formatDuration renders minutes and two-digit seconds\<close>

lemma bit_length_example: "bit_length 527765581332539968 = 59"
  by (rule bit_length_eqI) simp_all

lemma floor_div_example:
  "floor_div 527765581332539968 60000 = 8796093022209"
  "floor_div (2 ^ 86) 60000 = 1289520874255604514816"
  by (simp_all add: floor_div_def quotient_exponent_def bit_length_eval round_half_even_def
      Let_def)

lemma floor_div_example_seconds: "floor_div 59968 1000 = 59" "floor_div 55264 1000 = 55"
  by (simp_all add: floor_div_seconds)

lemma show_example:
  "show_nat 8796093022209 = ''8796093022209''" "show_nat 59 = ''59''"
  "show_nat 8796093022208 = ''8796093022208''" "show_nat 55 = ''55''"
  by (simp_all add: show_nat.simps digit_chars)

text \<open>
  Claim C10, as stated, fails for large durations, since the division is a division of
  doubles. \<open>527765581332539968\<close> is a double; its quotient by 60000 is
  \<open>8796093022208.9994...\<close>, which rounds to the double \<open>8796093022209\<close>, so the minutes are
  one more than \<open>floor (ms / 60000)\<close>. For \<open>2 ^ 86\<close> the minutes are written in exponent
  notation, and the result is no duration of the form \<open>mm:ss\<close>.
\<close>

theorem formatDuration_rounds_up:
  "is_double 527765581332539968
   \<and> formatDuration 527765581332539968 = ''8796093022209:59''
   \<and> show_nat (527765581332539968 div 60000) @ '':'' @
       (if (527765581332539968 mod 60000) div 1000 < (10::nat) then ''0'' else '''')
       @ show_nat ((527765581332539968 mod 60000) div 1000) = ''8796093022208:59''
   \<and> is_double (2 ^ 86)
   \<and> formatDuration (2 ^ 86) = ''1.2895208742556045e+21:55''
   \<and> parse_duration (formatDuration (2 ^ 86)) = None"
proof (intro conjI)
  show "is_double 527765581332539968" and "is_double (2 ^ 86)"
    by (simp_all add: is_double_def nearest_double_def bit_length_eval round_half_even_def
        Let_def)
  show "formatDuration 527765581332539968 = ''8796093022209:59''"
    by (simp add: formatDuration_def floor_div_example floor_div_example_seconds
        number_to_string_def show_example)
  show "show_nat (527765581332539968 div 60000) @ '':'' @
       (if (527765581332539968 mod 60000) div 1000 < (10::nat) then ''0'' else '''')
       @ show_nat ((527765581332539968 mod 60000) div 1000) = ''8796093022208:59''"
    by (simp add: show_example)
  show fd: "formatDuration (2 ^ 86) = ''1.2895208742556045e+21:55''"
    by (simp add: formatDuration_def floor_div_example(2) [simplified]
        floor_div_example_seconds number_to_string_large(2) number_to_string_def [of 55]
        show_example)
  show "parse_duration (formatDuration (2 ^ 86)) = None"
    unfolding fd by (simp add: parse_duration_def is_digit_def)
qed

text \<open>
  Claim C10, amended. Every non-negative integer \<open>ms\<close> below \<open>2 ^ 53\<close> is a double, and for
  every such \<open>ms\<close>, \<open>formatDuration ms\<close> is the minutes \<open>ms div 60000\<close>, a colon, and the seconds
  \<open>(ms mod 60000) div 1000\<close> with a leading zero below ten. The seconds are at most 59, and
  the string reads back as a well-formed duration: digits, a colon, and exactly two digits
  that are the seconds.
\<close>

theorem formatDuration_mm_ss:
  assumes "ms < 2 ^ 53"
  shows "formatDuration ms =
     show_nat (ms div 60000) @ '':'' @
       (if (ms mod 60000) div 1000 < 10 then ''0'' else '''') @ show_nat ((ms mod 60000) div 1000)
   \<and> (ms mod 60000) div 1000 \<le> 59
   \<and> parse_duration (formatDuration ms) = Some (ms div 60000, (ms mod 60000) div 1000)
   \<and> is_double ms"
proof -
  let ?m = "ms div 60000" and ?s = "(ms mod 60000) div 1000"
  let ?f = "(if ?s < 10 then ''0'' else '''') @ show_nat ?s"
  have s60: "?s < 60" by (rule seconds_lt_60)
  from assms have dbl: "is_double ms" by (simp add: is_double_def nearest_double_def)
  have "?m \<le> ms" by simp
  with assms have m53: "?m < 2 ^ 53" by (rule le_less_trans [rotated])
  from s60 have s53: "?s < 2 ^ 53" by simp
  have mins: "floor_div ms 60000 = ?m" using assms by (rule floor_div_minutes)
  have secs: "floor_div (ms mod 60000) 1000 = ?s" by (rule floor_div_seconds) simp
  have eq: "formatDuration ms = show_nat ?m @ CHR '':'' # ?f"
    using m53 s53 by (simp add: formatDuration_def mins secs number_to_string_def)
  from seconds_field_shape [OF s60]
  have "parse_duration (show_nat ?m @ CHR '':'' # ?f) = Some (?m, ?s)"
    using s60
    by (simp add: parse_duration_def takeWhile_digits dropWhile_digits show_nat_digits
        show_nat_nonempty read_show_nat)
  with eq s60 dbl show ?thesis by simp
qed

theorem formatDuration_mm_ss_witness:
  "formatDuration 225000 = ''3:45'' \<and> parse_duration (formatDuration 225000) = Some (3, 45)"
proof -
  have s: "show_nat 3 = ''3''" "show_nat 45 = ''45''"
    by (simp_all add: show_nat.simps digit_chars)
  have b: "(225000::nat) < 2 ^ 53" by simp
  note t = formatDuration_mm_ss [OF b]
  from t have "formatDuration 225000 = show_nat 3 @ '':'' @ show_nat 45" by simp
  with s have "formatDuration 225000 = ''3:45''" by simp
  moreover from t
  have "parse_duration (formatDuration 225000) = Some (225000 div 60000, 225000 mod 60000 div 1000)"
    by (rule conjunct1 [OF conjunct2 [OF conjunct2]])
  then have "parse_duration (formatDuration 225000) = Some (3, 45)" by simp
  ultimately show ?thesis by (rule conjI)
qed

end
